theory Spec2Isabelle
  imports Complex_Main "HOL-Library.List_Lexorder"
begin

section \<open>Python strings\<close>

text \<open>
  A Python \<open>str\<close> is a sequence of Unicode code points. The sponsor tables of
  \<open>clean_team_name\<close> hold code points beyond Latin-1 (U+015E, U+015F, U+0130), so a string
  is modelled as the list of its code points, each a natural number. \<open>ascii\<close> reads an
  ASCII literal as such a list.
\<close>

type_synonym ustring = "nat list"

definition ascii :: "string \<Rightarrow> ustring" where
  "ascii s = map of_char s"

text \<open>
  \<open>str.replace(old, new)\<close>: the occurrences of \<open>old\<close> are found from the left, without
  overlap, and each is replaced by \<open>new\<close>. With an empty \<open>old\<close>, Python puts \<open>new\<close>
  before every character and at the end.
\<close>

function replace :: "'a list \<Rightarrow> 'a list \<Rightarrow> 'a list \<Rightarrow> 'a list" where
  "replace old new [] = (if old = [] then new else [])"
| "replace old new (c # cs) =
     (if old = [] then new @ c # replace old new cs
      else if take (length old) (c # cs) = old
        then new @ replace old new (drop (length old) (c # cs))
      else c # replace old new cs)"
  by pat_completeness auto
termination
  by (relation "measure (\<lambda>(old, new, s). length s)") auto

text \<open>
  \<open>str.isspace\<close> on one character, as CPython's Unicode database has it, and
  \<open>str.strip()\<close>, which drops the whitespace at both ends.
\<close>

definition isspace :: "nat \<Rightarrow> bool" where
  "isspace c \<longleftrightarrow>
     (0x09 \<le> c \<and> c \<le> 0x0D) \<or> (0x1C \<le> c \<and> c \<le> 0x20) \<or> c = 0x85 \<or> c = 0xA0 \<or>
     c = 0x1680 \<or> (0x2000 \<le> c \<and> c \<le> 0x200A) \<or> c = 0x2028 \<or> c = 0x2029 \<or>
     c = 0x202F \<or> c = 0x205F \<or> c = 0x3000"

definition strip :: "ustring \<Rightarrow> ustring" where
  "strip s = rev (dropWhile isspace (rev (dropWhile isspace s)))"

section \<open>The name normalizer\<close>

text \<open>
  \<^verbatim>\<open>
  def clean_team_name(team_name):
      prefixes = [...]
      suffixes = [...]
      cleaned = team_name
      for prefix in prefixes:
          cleaned = cleaned.replace(prefix, "")
      for suffix in suffixes:
          cleaned = cleaned.replace(suffix, "")
      return cleaned.strip()
  \<close>
\<close>

definition prefixes :: "ustring list" where
  "prefixes =
     [ascii ''GA'' @ [0xDC] @ ascii '' '',
      ascii ''DND L. '',
      ascii ''Miracle '',
      ascii ''China Bazaar '',
      ascii ''Treme'' @ [0x15F] @ ascii ''eli H. '']"

definition suffixes :: "ustring list" where
  "suffixes =
     [ascii '' TSK'', ascii '' GSK'', ascii '' SK'', ascii '' DSK'', ascii '' YSK'',
      ascii '' GBSK'', ascii '' '' @ [0x15E] @ ascii ''HSK'',
      ascii '' '' @ [0x130] @ ascii ''YSK'', ascii '' KKSK'']"

definition remove_all :: "ustring list \<Rightarrow> ustring \<Rightarrow> ustring" where
  "remove_all olds s = foldl (\<lambda>cleaned old. replace old [] cleaned) s olds"

definition clean_team_name :: "ustring \<Rightarrow> ustring" where
  "clean_team_name team_name = strip (remove_all suffixes (remove_all prefixes team_name))"

section \<open>The Elo update\<close>

text \<open>
  Ratings are Python floats. They are modelled as real numbers, so the arithmetic of the
  source is taken exactly: rounding to a double and the range error of \<open>math.pow\<close> on a
  huge exponent are outside this model. \<open>pow(10, x)\<close> is \<open>10 powr x\<close>.
  \<^verbatim>\<open>
  def expected_score(rating_a, rating_b):
      return 1 / (1 + pow(10, (rating_b - rating_a) / 400))

  def update_elo(rating_a, rating_b, actual_score_a, k=32):
      expected_a = expected_score(rating_a, rating_b)
      new_rating_a = rating_a + k * (actual_score_a - expected_a)
      new_rating_b = rating_b + k * ((1 - actual_score_a) - (1 - expected_a))
      return new_rating_a, new_rating_b
  \<close>
\<close>

definition expected_score :: "real \<Rightarrow> real \<Rightarrow> real" where
  "expected_score rating_a rating_b = 1 / (1 + 10 powr ((rating_b - rating_a) / 400))"

definition update_elo :: "real \<Rightarrow> real \<Rightarrow> real \<Rightarrow> real \<Rightarrow> real \<times> real" where
  "update_elo rating_a rating_b actual_score_a k =
     (let expected_a = expected_score rating_a rating_b;
          new_rating_a = rating_a + k * (actual_score_a - expected_a);
          new_rating_b = rating_b + k * ((1 - actual_score_a) - (1 - expected_a))
      in (new_rating_a, new_rating_b))"

section \<open>The input data and Python's errors\<close>

text \<open>
  The dataset is what \<open>json.load\<close> returns. A score field, when present, can hold any JSON
  value: integers, strings and \<open>null\<close> are modelled (\<open>PInt\<close>, \<open>PStr\<close>, \<open>PNone\<close>);
  JSON floats, booleans, arrays and objects are left out. A field that is absent from the
  match is \<open>None\<close> of the option type. The team names and the season are taken to be
  present strings. \<open>weeks\<close> is a dict, iterated in insertion order: an association list.
\<close>

datatype pyval = PInt int | PStr ustring | PNone

datatype error = TypeError | KeyError

record match =
  home_team :: ustring
  away_team :: ustring
  home_score :: "pyval option"
  away_score :: "pyval option"

record season_data =
  season :: ustring
  weeks :: "(ustring \<times> match list) list"

definition and_then :: "error + 'a \<Rightarrow> ('a \<Rightarrow> error + 'b) \<Rightarrow> error + 'b" where
  "and_then r f = (case r of Inl e \<Rightarrow> Inl e | Inr x \<Rightarrow> f x)"

text \<open>
  \<open>a > b\<close> in Python: defined between two integers and between two strings (by code point,
  a proper prefix being smaller); any other pair of the modelled values raises TypeError.
\<close>

fun py_gt :: "pyval \<Rightarrow> pyval \<Rightarrow> error + bool" where
  "py_gt (PInt a) (PInt b) = Inr (a > b)"
| "py_gt (PStr a) (PStr b) = Inr (a > b)"
| "py_gt _ _ = Inl TypeError"

text \<open>\<open>d[k]\<close> raises KeyError on a missing key.\<close>

definition dict_get :: "('k \<rightharpoonup> 'v) \<Rightarrow> 'k \<Rightarrow> error + 'v" where
  "dict_get d k = (case d k of None \<Rightarrow> Inl KeyError | Some v \<Rightarrow> Inr v)"

section \<open>The rating engine\<close>

text \<open>
  The two dicts of \<open>calculate_elo_ratings\<close> are the state of its loops.
\<close>

record elo_state =
  elo_ratings :: "ustring \<rightharpoonup> real"
  elo_history :: "ustring \<rightharpoonup> (ustring \<times> real) list"

definition empty_state :: elo_state where
  "empty_state = \<lparr>elo_ratings = Map.empty, elo_history = Map.empty\<rparr>"

text \<open>
  \<^verbatim>\<open>
  if home_team not in elo_ratings:
      elo_ratings[home_team] = 1500
      elo_history[home_team] = [(timestamp, 1500)]
  \<close>
\<close>

definition init_team :: "ustring \<Rightarrow> ustring \<Rightarrow> elo_state \<Rightarrow> elo_state" where
  "init_team timestamp team st =
     (if team \<notin> dom (elo_ratings st)
      then st\<lparr>elo_ratings := (elo_ratings st)(team \<mapsto> 1500),
              elo_history := (elo_history st)(team \<mapsto> [(timestamp, 1500)])\<rparr>
      else st)"

text \<open>
  \<^verbatim>\<open>
  actual_score = 1 if home_score > away_score else 0.5 if home_score == away_score else 0
  \<close>
\<close>

definition actual_score :: "pyval \<Rightarrow> pyval \<Rightarrow> error + real" where
  "actual_score hs as =
     and_then (py_gt hs as) (\<lambda>gt. Inr (if gt then 1 else if hs = as then 1 / 2 else 0))"

text \<open>\<open>elo_history[team].append(entry)\<close>\<close>

definition history_append :: "ustring \<Rightarrow> ustring \<times> real \<Rightarrow> elo_state \<Rightarrow> error + elo_state" where
  "history_append team entry st =
     and_then (dict_get (elo_history st) team)
       (\<lambda>h. Inr (st\<lparr>elo_history := (elo_history st)(team \<mapsto> h @ [entry])\<rparr>))"

text \<open>
  The body of the innermost loop, for one match of the week labelled \<open>timestamp\<close>:
  \<^verbatim>\<open>
  if "home_score" not in match or "away_score" not in match:
      continue
  home_team = clean_team_name(match["home_team"])
  away_team = clean_team_name(match["away_team"])
  home_score = match["home_score"]
  away_score = match["away_score"]
  ... the two lazy initialisations ...
  actual_score = ...
  new_home_elo, new_away_elo = update_elo(
      elo_ratings[home_team], elo_ratings[away_team], actual_score)
  elo_ratings[home_team] = new_home_elo
  elo_ratings[away_team] = new_away_elo
  elo_history[home_team].append((timestamp, new_home_elo))
  elo_history[away_team].append((timestamp, new_away_elo))
  \<close>
\<close>

definition process_match :: "ustring \<Rightarrow> elo_state \<Rightarrow> match \<Rightarrow> error + elo_state" where
  "process_match timestamp st m =
     (case home_score m of None \<Rightarrow> Inr st | Some hs \<Rightarrow>
      (case away_score m of None \<Rightarrow> Inr st | Some as \<Rightarrow>
        let home = clean_team_name (home_team m);
            away = clean_team_name (away_team m);
            st1 = init_team timestamp home st;
            st2 = init_team timestamp away st1
        in and_then (actual_score hs as) (\<lambda>a.
           and_then (dict_get (elo_ratings st2) home) (\<lambda>rh.
           and_then (dict_get (elo_ratings st2) away) (\<lambda>ra.
             let (new_home_elo, new_away_elo) = update_elo rh ra a 32;
                 st3 = st2\<lparr>elo_ratings := (elo_ratings st2)(home \<mapsto> new_home_elo)\<rparr>;
                 st4 = st3\<lparr>elo_ratings := (elo_ratings st3)(away \<mapsto> new_away_elo)\<rparr>
             in and_then (history_append home (timestamp, new_home_elo) st4)
                  (history_append away (timestamp, new_away_elo)))))))"

text \<open>
  The three nested loops, and the function itself:
  \<^verbatim>\<open>
  for season_data in data:
      season = season_data["season"]
      weeks = season_data["weeks"]
      for week, matches in weeks.items():
          timestamp = f"{season} - {week}"
          for match in matches:
              ...
  return elo_ratings, elo_history
  \<close>
\<close>

definition timestamp_of :: "ustring \<Rightarrow> ustring \<Rightarrow> ustring" where
  "timestamp_of season_name week = season_name @ ascii '' - '' @ week"

fun process_matches :: "ustring \<Rightarrow> elo_state \<Rightarrow> match list \<Rightarrow> error + elo_state" where
  "process_matches timestamp st [] = Inr st"
| "process_matches timestamp st (m # ms) =
     and_then (process_match timestamp st m) (\<lambda>st'. process_matches timestamp st' ms)"

fun process_weeks :: "ustring \<Rightarrow> elo_state \<Rightarrow> (ustring \<times> match list) list \<Rightarrow> error + elo_state" where
  "process_weeks season_name st [] = Inr st"
| "process_weeks season_name st ((week, matches) # ws) =
     and_then (process_matches (timestamp_of season_name week) st matches)
       (\<lambda>st'. process_weeks season_name st' ws)"

fun process_seasons :: "elo_state \<Rightarrow> season_data list \<Rightarrow> error + elo_state" where
  "process_seasons st [] = Inr st"
| "process_seasons st (sd # rest) =
     and_then (process_weeks (season sd) st (weeks sd)) (\<lambda>st'. process_seasons st' rest)"

definition calculate_elo_ratings ::
  "season_data list \<Rightarrow> error + (ustring \<rightharpoonup> real) \<times> (ustring \<rightharpoonup> (ustring \<times> real) list)" where
  "calculate_elo_ratings data =
     and_then (process_seasons empty_state data) (\<lambda>st. Inr (elo_ratings st, elo_history st))"

section \<open>The traversal as one list\<close>

text \<open>
  The three loops visit the matches in one fixed order: season by season, week by week,
  match by match. \<open>traversal\<close> lists the matches in that order, each with its timestamp
  label, and \<open>process_all\<close> runs the loop body over such a list.
\<close>

definition week_traversal :: "ustring \<Rightarrow> (ustring \<times> match list) list \<Rightarrow> (ustring \<times> match) list" where
  "week_traversal season_name ws =
     concat (map (\<lambda>(week, matches). map (Pair (timestamp_of season_name week)) matches) ws)"

definition traversal :: "season_data list \<Rightarrow> (ustring \<times> match) list" where
  "traversal data = concat (map (\<lambda>sd. week_traversal (season sd) (weeks sd)) data)"

fun process_all :: "elo_state \<Rightarrow> (ustring \<times> match) list \<Rightarrow> error + elo_state" where
  "process_all st [] = Inr st"
| "process_all st ((timestamp, m) # rest) =
     and_then (process_match timestamp st m) (\<lambda>st'. process_all st' rest)"

text \<open>A match is completed when both score fields are present.\<close>

definition completed :: "match \<Rightarrow> bool" where
  "completed m \<longleftrightarrow> home_score m \<noteq> None \<and> away_score m \<noteq> None"

text \<open>The normalized names of the two sides of a match.\<close>

definition teams_of :: "match \<Rightarrow> ustring set" where
  "teams_of m = {clean_team_name (home_team m), clean_team_name (away_team m)}"

section \<open>Notions used to state the properties\<close>

text \<open>
  The rating a team enters a match with, and the history it enters with: those stored, or
  the values that the lazy initialisation is about to store for a team not seen before.
\<close>

definition rating_or_initial :: "elo_state \<Rightarrow> ustring \<Rightarrow> real" where
  "rating_or_initial st team = (case elo_ratings st team of None \<Rightarrow> 1500 | Some r \<Rightarrow> r)"

definition history_or_initial :: "ustring \<Rightarrow> elo_state \<Rightarrow> ustring \<Rightarrow> (ustring \<times> real) list" where
  "history_or_initial timestamp st team =
     (case elo_history st team of None \<Rightarrow> [(timestamp, 1500)] | Some h \<Rightarrow> h)"

text \<open>
  The two dicts have the same keys. Every state of the loops has this property
  (\<open>process_all_consistent\<close> below).
\<close>

definition consistent :: "elo_state \<Rightarrow> bool" where
  "consistent st \<longleftrightarrow> dom (elo_ratings st) = dom (elo_history st)"

text \<open>Python's \<open>old in s\<close> on strings: \<open>old\<close> occurs in \<open>s\<close> as a substring.\<close>

fun contains :: "'a list \<Rightarrow> 'a list \<Rightarrow> bool" where
  "contains old [] \<longleftrightarrow> old = []"
| "contains old (c # cs) \<longleftrightarrow> take (length old) (c # cs) = old \<or> contains old cs"

text \<open>A team takes part in a match that is rated.\<close>

definition involves :: "ustring \<Rightarrow> match \<Rightarrow> bool" where
  "involves t m \<longleftrightarrow> completed m \<and> t \<in> teams_of m"

text \<open>The current rating of every team is the rating of the last entry of its history.\<close>

definition current_is_last :: "elo_state \<Rightarrow> bool" where
  "current_is_last st \<longleftrightarrow>
     (\<forall>t r. elo_ratings st t = Some r \<longrightarrow>
        (\<exists>h. elo_history st t = Some h \<and> h \<noteq> [] \<and> snd (last h) = r))"

text \<open>
  The history \<open>h\<close> of team \<open>t\<close> starts with the 1500 entry at \<open>timestamp\<close>, followed by
  the entry that match \<open>m\<close>, played in state \<open>st\<close>, computes for \<open>t\<close> from the rating 1500.
\<close>

definition baseline_then_update ::
  "ustring \<Rightarrow> ustring \<Rightarrow> match \<Rightarrow> elo_state \<Rightarrow> (ustring \<times> real) list \<Rightarrow> bool" where
  "baseline_then_update t timestamp m st h \<longleftrightarrow>
     (\<exists>hs as a more.
        home_score m = Some hs \<and> away_score m = Some as \<and> actual_score hs as = Inr a \<and>
        h = (timestamp, 1500) #
            (timestamp,
             if t = clean_team_name (home_team m)
             then 1500 + 32 * (a - expected_score 1500
                    (rating_or_initial st (clean_team_name (away_team m))))
             else 1500 + 32 * ((1 - a) - (1 - expected_score
                    (rating_or_initial st (clean_team_name (home_team m))) 1500))) # more)"

text \<open>Every score that is present is an integer, as the input format has it.\<close>

definition integer_scores :: "match \<Rightarrow> bool" where
  "integer_scores m \<longleftrightarrow>
     (\<forall>v. home_score m = Some v \<longrightarrow> (\<exists>i. v = PInt i)) \<and>
     (\<forall>v. away_score m = Some v \<longrightarrow> (\<exists>i. v = PInt i))"

text \<open>The names, matches and states of the examples.\<close>

definition Foo :: ustring where "Foo = ascii ''Foo''"
definition Bar :: ustring where "Bar = ascii ''Bar''"
definition week1 :: ustring where "week1 = ascii ''2024 - 1''"

definition sponsored_foo :: ustring where
  "sponsored_foo = ascii ''GA'' @ [0xDC] @ ascii '' Foo TSK''"

definition foo_beats_bar :: match where
  "foo_beats_bar =
     \<lparr>home_team = sponsored_foo, away_team = ascii ''Bar'',
      home_score = Some (PInt 2), away_score = Some (PInt 1)\<rparr>"

definition foo_plays_foo :: match where
  "foo_plays_foo =
     \<lparr>home_team = ascii ''Foo'', away_team = ascii ''Foo TSK'',
      home_score = Some (PInt 2), away_score = Some (PInt 1)\<rparr>"

definition week2 :: ustring where "week2 = ascii ''2024 - 2''"

text \<open>The state after \<open>foo_beats_bar\<close> alone, played in week 1.\<close>

definition after_week1 :: elo_state where
  "after_week1 =
     \<lparr>elo_ratings = [Foo \<mapsto> 1516, Bar \<mapsto> 1484],
      elo_history = [Foo \<mapsto> [(week1, 1500), (week1, 1516)],
                     Bar \<mapsto> [(week1, 1500), (week1, 1484)]]\<rparr>"

definition foo_draws_foo :: match where
  "foo_draws_foo =
     \<lparr>home_team = sponsored_foo, away_team = ascii ''Foo'',
      home_score = Some (PInt 0), away_score = Some (PInt 0)\<rparr>"

definition negative_score_match :: match where
  "negative_score_match =
     \<lparr>home_team = ascii ''Foo'', away_team = ascii ''Bar'',
      home_score = Some (PInt (- 3)), away_score = Some (PInt 0)\<rparr>"

definition newcomers_draw :: match where
  "newcomers_draw =
     \<lparr>home_team = ascii ''Miracle Baz'', away_team = ascii ''Qux GSK'',
      home_score = Some (PInt 1), away_score = Some (PInt 1)\<rparr>"

definition unplayed :: match where
  "unplayed = \<lparr>home_team = ascii ''Foo'', away_team = ascii ''Bar'',
     home_score = Some (PInt 1), away_score = None\<rparr>"

definition one_match_data :: "season_data list" where
  "one_match_data = [\<lparr>season = ascii ''2024'', weeks = [(ascii ''1'', [foo_beats_bar])]\<rparr>]"

definition unplayed_data :: "season_data list" where
  "unplayed_data =
     [\<lparr>season = ascii ''2024'',
       weeks = [(ascii ''1'', [unplayed, unplayed\<lparr>home_score := None\<rparr>])]\<rparr>]"

definition null_score_match :: match where
  "null_score_match =
     \<lparr>home_team = ascii ''Foo'', away_team = ascii ''Bar'',
      home_score = Some PNone, away_score = Some (PInt 0)\<rparr>"

definition negative_draw :: match where
  "negative_draw =
     \<lparr>home_team = ascii ''Bar'', away_team = ascii ''Foo'',
      home_score = Some (PInt (- 1)), away_score = Some (PInt (- 1))\<rparr>"

definition lower_case_name :: ustring where
  "lower_case_name = ascii ''  miracle Foo tsk ''"

section \<open>Lemmas on strings\<close>

text \<open>\<open>contains\<close> is the substring relation.\<close>

lemma contains_iff: "contains old s \<longleftrightarrow> (\<exists>a b. s = a @ old @ b)"
proof (induction s)
  case Nil
  show ?case by auto
next
  case (Cons c cs)
  show ?case
  proof
    assume "contains old (c # cs)"
    then consider "take (length old) (c # cs) = old" | "contains old cs" by auto
    then show "\<exists>a b. c # cs = a @ old @ b"
    proof cases
      case 1
      then have "c # cs = [] @ old @ drop (length old) (c # cs)"
        by (metis append_Nil append_take_drop_id)
      then show ?thesis by blast
    next
      case 2
      with Cons.IH obtain a b where "cs = a @ old @ b" by blast
      then have "c # cs = (c # a) @ old @ b" by simp
      then show ?thesis by blast
    qed
  next
    assume "\<exists>a b. c # cs = a @ old @ b"
    then obtain a b where ab: "c # cs = a @ old @ b" by blast
    show "contains old (c # cs)"
    proof (cases a)
      case Nil
      with ab have "take (length old) (c # cs) = old" by simp
      then show ?thesis by simp
    next
      case (Cons x a')
      with ab have "cs = a' @ old @ b" by simp
      with Cons.IH have "contains old cs" by blast
      then show ?thesis by simp
    qed
  qed
qed

text \<open>
  \<open>replace\<close> with an empty \<open>new\<close>: a string without \<open>old\<close> is left as it is, and the
  first occurrence of \<open>old\<close> is deleted, the scan going on behind it.
\<close>

lemma replace_absent: "\<not> contains old s \<Longrightarrow> replace old new s = s"
  by (induction s) auto

lemma remove_all_absent:
  "\<forall>old \<in> set olds. \<not> contains old s \<Longrightarrow> remove_all olds s = s"
  by (induction olds) (simp_all add: remove_all_def replace_absent)

lemma replace_first_occurrence:
  "old \<noteq> [] \<Longrightarrow> \<not> contains old (a @ butlast old) \<Longrightarrow>
   replace old [] (a @ old @ b) = a @ replace old [] b"
proof (induction a)
  case Nil
  then obtain c cs where "old @ b = c # cs" by (cases old) auto
  with Nil(1) show ?case
    by (metis append_Nil append_eq_conv_conj replace.simps(2))
next
  case (Cons x a)
  from Cons.prems(2) have 1: "take (length old) (x # a @ butlast old) \<noteq> old"
    and 2: "\<not> contains old (a @ butlast old)" by auto
  have "x # a @ old @ b = (x # a @ butlast old) @ (last old # b)"
    using Cons.prems(1) by simp
  moreover have "length old \<le> length (x # a @ butlast old)"
    using Cons.prems(1) by (cases old) auto
  ultimately have "take (length old) (x # a @ old @ b) = take (length old) (x # a @ butlast old)"
    by (metis take_append append_Nil2 diff_is_0_eq' take_0)
  with 1 have "take (length old) (x # a @ old @ b) \<noteq> old" by simp
  with Cons.prems(1) Cons.IH [OF Cons.prems(1) 2] show ?case by simp
qed

lemma rstrip_keeps_head:
  assumes "rev (dropWhile P (rev u)) \<noteq> []"
  shows "hd (rev (dropWhile P (rev u))) = hd u"
proof -
  obtain k where k: "rev (dropWhile P (rev u)) = take k u"
    by (metis dropWhile_eq_drop rev_drop rev_rev_ident)
  with assms have "k \<noteq> 0" "u \<noteq> []" by auto
  with k show ?thesis by (cases u; cases k) auto
qed

lemma strip_idem: "strip (strip s) = strip s"
proof -
  define u where "u = dropWhile isspace s"
  define v where "v = rev (dropWhile isspace (rev u))"
  have "dropWhile isspace v = v"
  proof (cases "v = []")
    case True
    then show ?thesis by simp
  next
    case False
    then have "u \<noteq> []" by (auto simp: v_def)
    then have "\<not> isspace (hd u)" unfolding u_def by (rule hd_dropWhile)
    moreover have "hd v = hd u"
      using False unfolding v_def by (rule rstrip_keeps_head)
    ultimately show ?thesis by (simp add: dropWhile_eq_self_iff)
  qed
  moreover have "strip s = v" by (simp add: strip_def u_def v_def)
  ultimately show ?thesis by (simp add: strip_def v_def)
qed

section \<open>Lemmas on the loop body\<close>

lemma and_then_simps [simp]:
  "and_then (Inl e) f = Inl e" "and_then (Inr x) f = f x"
  by (simp_all add: and_then_def)

lemma and_then_Inr_iff:
  "and_then r f = Inr y \<longleftrightarrow> (\<exists>x. r = Inr x \<and> f x = Inr y)"
  by (cases r) simp_all

lemma expected_score_equal [simp]: "expected_score r r = 1 / 2"
  by (simp add: expected_score_def)

text \<open>
  In exact arithmetic the two results of \<open>update_elo\<close> sum to the sum of its two
  arguments. This is a fact of the real-number model only: the source adds and multiplies
  doubles, where each operation rounds, so there the two sums agree up to rounding error
  and need not be equal.
\<close>

lemma update_elo_exact_sum:
  "fst (update_elo rating_a rating_b actual_score_a k) +
   snd (update_elo rating_a rating_b actual_score_a k) = rating_a + rating_b"
  by (simp add: update_elo_def Let_def algebra_simps)

lemma process_match_incomplete:
  "home_score m = None \<or> away_score m = None \<Longrightarrow> process_match timestamp st m = Inr st"
  by (auto simp: process_match_def split: option.splits)

lemma consistent_None: "consistent st \<Longrightarrow> (elo_history st t = None) = (elo_ratings st t = None)"
  unfolding consistent_def by (metis domIff)

lemma consistent_empty [simp]: "consistent empty_state"
  by (simp add: consistent_def empty_state_def)

lemma init_team_ratings:
  "elo_ratings (init_team timestamp t st) = (elo_ratings st)(t \<mapsto> rating_or_initial st t)"
  by (auto simp: init_team_def rating_or_initial_def fun_eq_iff split: option.splits)

lemma init_team_history:
  "consistent st \<Longrightarrow>
   elo_history (init_team timestamp t st) = (elo_history st)(t \<mapsto> history_or_initial timestamp st t)"
proof (cases "elo_ratings st t")
  case None
  assume "consistent st"
  with None have "elo_history st t = None" by (simp add: consistent_None)
  with None show ?thesis by (simp add: init_team_def history_or_initial_def dom_def)
next
  case (Some r)
  assume "consistent st"
  with Some obtain h where "elo_history st t = Some h"
    using consistent_None [of st t] by auto
  with Some show ?thesis by (auto simp: init_team_def history_or_initial_def dom_def)
qed

lemma init_team_consistent: "consistent st \<Longrightarrow> consistent (init_team timestamp t st)"
  by (auto simp: init_team_def consistent_def)

lemma rating_or_initial_init [simp]:
  "rating_or_initial (init_team timestamp t st) u = rating_or_initial st u"
  by (simp add: rating_or_initial_def init_team_ratings)

lemma history_or_initial_init [simp]:
  "consistent st \<Longrightarrow>
   history_or_initial timestamp (init_team timestamp t st) u = history_or_initial timestamp st u"
  by (simp add: history_or_initial_def init_team_history)

text \<open>What one completed match with comparable scores does to a consistent state.\<close>

lemma process_match_completed:
  assumes hs: "home_score m = Some hs" and as: "away_score m = Some as"
    and a: "actual_score hs as = Inr a" and c: "consistent st"
  shows "process_match timestamp st m =
    (let home = clean_team_name (home_team m); away = clean_team_name (away_team m);
         new_home_elo = fst (update_elo (rating_or_initial st home) (rating_or_initial st away) a 32);
         new_away_elo = snd (update_elo (rating_or_initial st home) (rating_or_initial st away) a 32);
         hh = history_or_initial timestamp st home;
         ha = history_or_initial timestamp st away
     in Inr \<lparr>elo_ratings = (elo_ratings st)(home \<mapsto> new_home_elo, away \<mapsto> new_away_elo),
             elo_history =
               (if home = away
                then (elo_history st)(home \<mapsto> hh @ [(timestamp, new_home_elo), (timestamp, new_away_elo)])
                else (elo_history st)(home \<mapsto> hh @ [(timestamp, new_home_elo)],
                                      away \<mapsto> ha @ [(timestamp, new_away_elo)]))\<rparr>)"
proof -
  let ?home = "clean_team_name (home_team m)" and ?away = "clean_team_name (away_team m)"
  let ?st2 = "init_team timestamp ?away (init_team timestamp ?home st)"
  have r2: "elo_ratings ?st2 = (elo_ratings st)(?home \<mapsto> rating_or_initial st ?home,
      ?away \<mapsto> rating_or_initial st ?away)"
    by (simp add: init_team_ratings)
  have h2: "elo_history ?st2 = (elo_history st)(?home \<mapsto> history_or_initial timestamp st ?home,
      ?away \<mapsto> history_or_initial timestamp st ?away)"
    using c by (simp add: init_team_history init_team_consistent)
  show ?thesis
    using hs as a
    by (auto simp add: process_match_def Let_def dict_get_def history_append_def r2 h2 split_beta
        fun_upd_twist)
qed

lemma actual_score_PInt:
  "actual_score (PInt hs) (PInt as) = Inr (if hs > as then 1 else if hs = as then 1 / 2 else 0)"
  by (simp add: actual_score_def)

text \<open>The names of the examples, normalized.\<close>

lemma clean_examples:
  "clean_team_name sponsored_foo = Foo"
  "clean_team_name (ascii ''Foo TSK'') = Foo"
  "clean_team_name (ascii ''Foo'') = Foo"
  "clean_team_name (ascii ''Bar'') = Bar"
  by (simp_all add: clean_team_name_def remove_all_def prefixes_def suffixes_def ascii_def
      strip_def isspace_def Foo_def Bar_def sponsored_foo_def)

lemma Foo_neq_Bar [simp]: "Foo \<noteq> Bar" "Bar \<noteq> Foo"
  by (simp_all add: Foo_def Bar_def ascii_def)

lemma process_all_append:
  "process_all st (xs @ ys) = and_then (process_all st xs) (\<lambda>st'. process_all st' ys)"
proof (induction xs arbitrary: st)
  case Nil
  show ?case by simp
next
  case (Cons x xs)
  obtain timestamp m where x: "x = (timestamp, m)" by (cases x)
  show ?case
    by (cases "process_match timestamp st m") (simp_all add: x Cons.IH)
qed

lemma process_matches_all:
  "process_matches timestamp st ms = process_all st (map (Pair timestamp) ms)"
  by (induction ms arbitrary: st) simp_all

lemma process_weeks_all:
  "process_weeks season_name st ws = process_all st (week_traversal season_name ws)"
  by (induction ws arbitrary: st)
    (auto simp: week_traversal_def process_all_append process_matches_all)

lemma process_seasons_all: "process_seasons st data = process_all st (traversal data)"
  by (induction data arbitrary: st)
    (simp_all add: traversal_def process_all_append process_weeks_all)

lemma process_match_error:
  "home_score m = Some hs \<Longrightarrow> away_score m = Some as \<Longrightarrow> actual_score hs as = Inl e \<Longrightarrow>
   process_match timestamp st m = Inl e"
  by (simp add: process_match_def Let_def)

text \<open>The two ways in which the loop body returns a state.\<close>

lemma process_match_Inr_cases:
  assumes "process_match timestamp st m = Inr st'" and "consistent st"
  obtains (skipped) "\<not> completed m" and "st' = st"
  | (rated) hs as a where "home_score m = Some hs" and "away_score m = Some as"
      and "actual_score hs as = Inr a"
proof (cases "completed m")
  case False
  with assms(1) have "st' = st"
    using process_match_incomplete [of m timestamp st] by (auto simp: completed_def)
  with False show ?thesis by (rule skipped)
next
  case True
  then obtain hs as where s: "home_score m = Some hs" "away_score m = Some as"
    by (auto simp: completed_def)
  show ?thesis
  proof (cases "actual_score hs as")
    case (Inl e)
    with s assms(1) show ?thesis by (simp add: process_match_error)
  next
    case (Inr a)
    with s show ?thesis by (rule rated)
  qed
qed

lemma process_match_consistent:
  assumes "process_match timestamp st m = Inr st'" and "consistent st"
  shows "consistent st'"
  using assms
proof (cases rule: process_match_Inr_cases)
  case skipped
  with assms show ?thesis by simp
next
  case (rated hs as a)
  from process_match_completed [OF rated assms(2), of timestamp] assms(1) assms(2)
  show ?thesis
    by (auto simp: Let_def consistent_def split: if_splits)
qed

lemma process_all_consistent:
  "process_all st xs = Inr st' \<Longrightarrow> consistent st \<Longrightarrow> consistent st'"
proof (induction xs arbitrary: st)
  case Nil
  then show ?case by simp
next
  case (Cons x xs)
  obtain timestamp m where x: "x = (timestamp, m)" by (cases x)
  from Cons.prems(1) obtain st1 where 1: "process_match timestamp st m = Inr st1"
    and 2: "process_all st1 xs = Inr st'"
    by (auto simp: x and_then_Inr_iff)
  from 1 Cons.prems(2) have "consistent st1" by (rule process_match_consistent)
  with 2 show ?case by (rule Cons.IH)
qed

text \<open>On a dataset whose scores are integers, the run raises no error.\<close>

lemma process_match_succeeds:
  assumes "consistent st" and "integer_scores m"
  shows "\<exists>st'. process_match timestamp st m = Inr st'"
proof (cases "completed m")
  case False
  then show ?thesis
    using process_match_incomplete [of m timestamp st] by (auto simp: completed_def)
next
  case True
  with assms(2) obtain hs as where "home_score m = Some (PInt hs)" "away_score m = Some (PInt as)"
    by (auto simp: completed_def integer_scores_def)
  from process_match_completed [OF this actual_score_PInt assms(1), of timestamp]
  show ?thesis by (simp add: Let_def)
qed

lemma process_all_succeeds:
  "consistent st \<Longrightarrow> \<forall>(timestamp, m) \<in> set xs. integer_scores m \<Longrightarrow>
   \<exists>st'. process_all st xs = Inr st'"
proof (induction xs arbitrary: st)
  case Nil
  show ?case by simp
next
  case (Cons x xs)
  obtain timestamp m where x: "x = (timestamp, m)" by (cases x)
  from Cons.prems have "integer_scores m" by (simp add: x)
  with Cons.prems(1) obtain st1 where 1: "process_match timestamp st m = Inr st1"
    using process_match_succeeds by blast
  from 1 Cons.prems(1) have "consistent st1" by (rule process_match_consistent)
  with Cons.IH [of st1] Cons.prems(2) obtain st' where "process_all st1 xs = Inr st'"
    by auto
  with 1 show ?case by (simp add: x)
qed

lemma calculate_elo_ratings_succeeds:
  "\<forall>(timestamp, m) \<in> set (traversal data). integer_scores m \<Longrightarrow>
   \<exists>ratings history. calculate_elo_ratings data = Inr (ratings, history)"
  using process_all_succeeds [of empty_state "traversal data"]
  by (auto simp: calculate_elo_ratings_def process_seasons_all)

lemma process_match_current_is_last:
  assumes "process_match timestamp st m = Inr st'" and "consistent st" and "current_is_last st"
  shows "current_is_last st'"
  using assms(1,2)
proof (cases rule: process_match_Inr_cases)
  case skipped
  with assms show ?thesis by simp
next
  case (rated hs as a)
  from process_match_completed [OF rated assms(2), of timestamp] assms(1) assms(3)
  show ?thesis
    by (auto simp: Let_def current_is_last_def split: if_splits)
qed

lemma process_all_current_is_last:
  "process_all st xs = Inr st' \<Longrightarrow> consistent st \<Longrightarrow> current_is_last st \<Longrightarrow> current_is_last st'"
proof (induction xs arbitrary: st)
  case Nil
  then show ?case by simp
next
  case (Cons x xs)
  obtain timestamp m where x: "x = (timestamp, m)" by (cases x)
  from Cons.prems(1) obtain st1 where 1: "process_match timestamp st m = Inr st1"
    and 2: "process_all st1 xs = Inr st'"
    by (auto simp: x and_then_Inr_iff)
  from 1 Cons.prems(2) have c: "consistent st1" by (rule process_match_consistent)
  from 1 Cons.prems(2,3) have "current_is_last st1" by (rule process_match_current_is_last)
  with 2 c show ?case by (rule Cons.IH)
qed

lemma current_is_last_empty: "current_is_last empty_state"
  by (simp add: current_is_last_def empty_state_def)

lemma process_matches_incomplete:
  "\<forall>m \<in> set ms. \<not> completed m \<Longrightarrow> process_matches timestamp st ms = Inr st"
  by (induction ms) (auto simp: completed_def process_match_incomplete)

lemma process_weeks_incomplete:
  "\<forall>(week, ms) \<in> set ws. \<forall>m \<in> set ms. \<not> completed m \<Longrightarrow>
   process_weeks season_name st ws = Inr st"
  by (induction ws) (auto simp: process_matches_incomplete)

lemma process_seasons_incomplete:
  "\<forall>sd \<in> set data. \<forall>(week, ms) \<in> set (weeks sd). \<forall>m \<in> set ms. \<not> completed m \<Longrightarrow>
   process_seasons st data = Inr st"
  by (induction data) (auto simp: process_weeks_incomplete)

lemma py_gt_PNone [simp]: "py_gt PNone v = Inl TypeError" "py_gt v PNone = Inl TypeError"
  by (cases v; simp)+

lemma process_match_untouched:
  assumes "process_match timestamp st m = Inr st'" and "consistent st" and "\<not> involves t m"
  shows "elo_history st' t = elo_history st t \<and> elo_ratings st' t = elo_ratings st t"
  using assms(1,2)
proof (cases rule: process_match_Inr_cases)
  case skipped
  then show ?thesis by simp
next
  case (rated hs as a)
  with assms(3) have "t \<noteq> clean_team_name (home_team m)" "t \<noteq> clean_team_name (away_team m)"
    by (auto simp: involves_def completed_def teams_of_def)
  with process_match_completed [OF rated assms(2), of timestamp] assms(1)
  show ?thesis
    by (auto simp: Let_def split: if_splits)
qed

lemma process_all_untouched:
  "process_all st xs = Inr st' \<Longrightarrow> consistent st \<Longrightarrow>
   \<forall>(timestamp, m) \<in> set xs. \<not> involves t m \<Longrightarrow>
   elo_history st' t = elo_history st t \<and> elo_ratings st' t = elo_ratings st t"
proof (induction xs arbitrary: st)
  case Nil
  then show ?case by simp
next
  case (Cons x xs)
  obtain timestamp m where x: "x = (timestamp, m)" by (cases x)
  from Cons.prems(1) obtain st1 where 1: "process_match timestamp st m = Inr st1"
    and 2: "process_all st1 xs = Inr st'"
    by (auto simp: x and_then_Inr_iff)
  from 1 Cons.prems(2) have c: "consistent st1" by (rule process_match_consistent)
  from Cons.prems(3) have n: "\<not> involves t m" and ns: "\<forall>(timestamp, m) \<in> set xs. \<not> involves t m"
    by (simp_all add: x)
  from process_match_untouched [OF 1 Cons.prems(2) n] Cons.IH [OF 2 c ns]
  show ?case by simp
qed

lemma process_match_history_grows:
  assumes "process_match timestamp st m = Inr st'" and "consistent st"
    and "elo_history st t = Some h"
  shows "\<exists>more. elo_history st' t = Some (h @ more)"
  using assms(1,2)
proof (cases rule: process_match_Inr_cases)
  case skipped
  with assms(3) show ?thesis by simp
next
  case (rated hs as a)
  from process_match_completed [OF rated assms(2), of timestamp] assms(1,3)
  show ?thesis
    by (auto simp: Let_def history_or_initial_def split: if_splits)
qed

lemma process_all_history_grows:
  "process_all st xs = Inr st' \<Longrightarrow> consistent st \<Longrightarrow> elo_history st t = Some h \<Longrightarrow>
   \<exists>more. elo_history st' t = Some (h @ more)"
proof (induction xs arbitrary: st h)
  case Nil
  then show ?case by simp
next
  case (Cons x xs)
  obtain timestamp m where x: "x = (timestamp, m)" by (cases x)
  from Cons.prems(1) obtain st1 where 1: "process_match timestamp st m = Inr st1"
    and 2: "process_all st1 xs = Inr st'"
    by (auto simp: x and_then_Inr_iff)
  from 1 Cons.prems(2) have c: "consistent st1" by (rule process_match_consistent)
  from process_match_history_grows [OF 1 Cons.prems(2,3)]
  obtain more1 where "elo_history st1 t = Some (h @ more1)" ..
  from Cons.IH [OF 2 c this] show ?case by auto
qed

text \<open>The first rated match of a team: the baseline entry, then the update applied to 1500.\<close>

lemma process_match_first_sight:
  assumes p: "process_match timestamp st m = Inr st'" and c: "consistent st"
    and i: "involves t m" and new: "elo_ratings st t = None"
  shows "\<exists>hs as a more. home_score m = Some hs \<and> away_score m = Some as \<and>
     actual_score hs as = Inr a \<and>
     elo_history st' t =
       Some ((timestamp, 1500) #
             (timestamp,
              if t = clean_team_name (home_team m)
              then 1500 + 32 * (a - expected_score 1500
                     (rating_or_initial st (clean_team_name (away_team m))))
              else 1500 + 32 * ((1 - a) - (1 - expected_score
                     (rating_or_initial st (clean_team_name (home_team m))) 1500))) # more)"
  using p c
proof (cases rule: process_match_Inr_cases)
  case skipped
  with i show ?thesis by (simp add: involves_def)
next
  case (rated hs as a)
  from new c have h: "elo_history st t = None" by (simp add: consistent_None)
  from new have r: "rating_or_initial st t = 1500" by (simp add: rating_or_initial_def)
  from i have t: "t = clean_team_name (home_team m) \<or> t = clean_team_name (away_team m)"
    by (auto simp: involves_def teams_of_def)
  from process_match_completed [OF rated c, of timestamp] p h r t
  have "elo_history st' t =
       Some ((timestamp, 1500) #
             (timestamp,
              if t = clean_team_name (home_team m)
              then 1500 + 32 * (a - expected_score 1500
                     (rating_or_initial st (clean_team_name (away_team m))))
              else 1500 + 32 * ((1 - a) - (1 - expected_score
                     (rating_or_initial st (clean_team_name (home_team m))) 1500))) #
             (if clean_team_name (home_team m) = clean_team_name (away_team m)
              then [(timestamp, 1500 + 32 * ((1 - a) - (1 - expected_score 1500 1500)))] else []))"
    by (auto simp: Let_def history_or_initial_def update_elo_def split: if_splits)
  with rated show ?thesis by blast
qed


lemma first_rated_match:
  assumes run: "process_all empty_state xs = Inr st'"
    and ex: "\<exists>(timestamp, m) \<in> set xs. involves t m"
  shows "\<exists>played timestamp m rest st h.
     xs = played @ (timestamp, m) # rest \<and>
     (\<forall>(timestamp', m') \<in> set played. \<not> involves t m') \<and> involves t m \<and>
     process_all empty_state played = Inr st \<and> elo_ratings st t = None \<and>
     elo_history st' t = Some h \<and> baseline_then_update t timestamp m st h"
proof -
  from ex have "\<exists>x \<in> set xs. involves t (snd x)" by force
  from split_list_first_prop [OF this]
  obtain played x rest where xs: "xs = played @ x # rest" and i: "involves t (snd x)"
    and before: "\<forall>y \<in> set played. \<not> involves t (snd y)" by blast
  obtain timestamp m where x: "x = (timestamp, m)" by (cases x)
  from run obtain st st1 where 1: "process_all empty_state played = Inr st"
    and 2: "process_match timestamp st m = Inr st1" and 3: "process_all st1 rest = Inr st'"
    by (auto simp: xs x process_all_append and_then_Inr_iff)
  from 1 have c: "consistent st" by (rule process_all_consistent) simp
  from before have b: "\<forall>(timestamp', m') \<in> set played. \<not> involves t m'" by auto
  from process_all_untouched [OF 1 consistent_empty b] have new: "elo_ratings st t = None"
    by (simp add: empty_state_def)
  from i have i': "involves t m" by (simp add: x)
  from process_match_first_sight [OF 2 c i' new]
  obtain hs as a more where s: "home_score m = Some hs" "away_score m = Some as"
      "actual_score hs as = Inr a"
    and h1: "elo_history st1 t =
       Some ((timestamp, 1500) #
             (timestamp,
              if t = clean_team_name (home_team m)
              then 1500 + 32 * (a - expected_score 1500
                     (rating_or_initial st (clean_team_name (away_team m))))
              else 1500 + 32 * ((1 - a) - (1 - expected_score
                     (rating_or_initial st (clean_team_name (home_team m))) 1500))) # more)"
    by blast
  from 2 c have c1: "consistent st1" by (rule process_match_consistent)
  from process_all_history_grows [OF 3 c1 h1] obtain more' where
    "elo_history st' t =
       Some (((timestamp, 1500) #
             (timestamp,
              if t = clean_team_name (home_team m)
              then 1500 + 32 * (a - expected_score 1500
                     (rating_or_initial st (clean_team_name (away_team m))))
              else 1500 + 32 * ((1 - a) - (1 - expected_score
                     (rating_or_initial st (clean_team_name (home_team m))) 1500))) # more) @ more')" ..
  with s have "\<exists>h. elo_history st' t = Some h \<and> baseline_then_update t timestamp m st h"
    unfolding baseline_then_update_def by (intro exI conjI) (assumption | simp)+
  with xs x b i' 1 new show ?thesis by blast
qed

text \<open>The examples, evaluated.\<close>

lemma lower_case_absent: "\<forall>old \<in> set (prefixes @ suffixes). \<not> contains old lower_case_name"
  by (simp add: prefixes_def suffixes_def lower_case_name_def ascii_def)

lemma Foo_absent: "\<forall>old \<in> set (prefixes @ suffixes). \<not> contains old Foo"
  by (simp add: prefixes_def suffixes_def Foo_def ascii_def)

lemma consistent_after_week1 [simp]: "consistent after_week1"
  by (auto simp: consistent_def after_week1_def)

lemma after_week1_reached: "process_match week1 empty_state foo_beats_bar = Inr after_week1"
  using process_match_completed [of foo_beats_bar "PInt 2" "PInt 1" 1 empty_state week1]
  by (simp add: consistent_def foo_beats_bar_def clean_examples actual_score_PInt update_elo_def
      rating_or_initial_def history_or_initial_def empty_state_def after_week1_def)

lemma clean_newcomers:
  "clean_team_name (ascii ''Miracle Baz'') = ascii ''Baz''"
  "clean_team_name (ascii ''Qux GSK'') = ascii ''Qux''"
  by (simp_all add: clean_team_name_def remove_all_def prefixes_def suffixes_def ascii_def
      strip_def isspace_def)

lemma one_match_traversal: "traversal one_match_data = [(week1, foo_beats_bar)]"
  by (simp add: one_match_data_def traversal_def week_traversal_def timestamp_of_def week1_def
      ascii_def)

lemma one_match_result:
  "calculate_elo_ratings one_match_data = Inr (elo_ratings after_week1, elo_history after_week1)"
  by (simp add: calculate_elo_ratings_def process_seasons_all one_match_traversal
      after_week1_reached)

section \<open>The properties\<close>

text \<open>
  C1. For a completed match with integer scores, in any state of the loops: the actual
  score of the home side is 1, 1/2 or 0 as the home score is greater than, equal to or
  less than the away score; the expected score is computed from the two current ratings
  (1500 for a team not seen before); and the match raises no error and stores the two
  ratings given by the update rule with K = 32, the away side's being stored last.
\<close>

theorem elo_update_rule:
  assumes "home_score m = Some (PInt hs)" and "away_score m = Some (PInt as)"
    and "consistent st"
  shows
    "let home = clean_team_name (home_team m);
         away = clean_team_name (away_team m);
         R_home = rating_or_initial st home;
         R_away = rating_or_initial st away;
         actual_score_home = (if hs > as then 1 else if hs = as then 1 / 2 else 0);
         E_home = 1 / (1 + 10 powr ((R_away - R_home) / 400))
     in \<exists>st'. process_match timestamp st m = Inr st' \<and>
          elo_ratings st' =
            (elo_ratings st)
              (home \<mapsto> R_home + 32 * (actual_score_home - E_home),
               away \<mapsto> R_away + 32 * ((1 - actual_score_home) - (1 - E_home)))"
  using process_match_completed [OF assms(1) assms(2) actual_score_PInt assms(3), of timestamp]
  by (simp add: Let_def update_elo_def expected_score_def)

theorem elo_update_rule_witness:
  "\<exists>st'. process_match week1 empty_state foo_beats_bar = Inr st' \<and>
     elo_ratings st' = [Foo \<mapsto> 1516, Bar \<mapsto> 1484]"
  using elo_update_rule [of foo_beats_bar 2 1 empty_state week1]
  by (simp add: foo_beats_bar_def clean_examples rating_or_initial_def empty_state_def
      consistent_def)

text \<open>
  C10. A completed match whose two raw names normalize to the same name \<open>T\<close> is still
  processed, against the one state of \<open>T\<close>: with \<open>R\<close> the rating \<open>T\<close> enters with, the expected
  score is 1/2, two entries are appended to the history of \<open>T\<close>, first the home-side
  result \<open>R + 32 * (actual_score_home - 1/2)\<close>, then the away-side result
  \<open>R + 32 * ((1 - actual_score_home) - 1/2)\<close>, and the rating of \<open>T\<close> after the match is the
  away-side result.
\<close>

theorem self_match:
  assumes "home_score m = Some hs" and "away_score m = Some as"
    and "actual_score hs as = Inr actual_score_home"
    and "consistent st"
    and "clean_team_name (home_team m) = T" and "clean_team_name (away_team m) = T"
  shows
    "let R = rating_or_initial st T
     in expected_score R R = 1 / 2 \<and>
        process_match timestamp st m =
          Inr \<lparr>elo_ratings = (elo_ratings st)(T \<mapsto> R + 32 * ((1 - actual_score_home) - 1 / 2)),
               elo_history = (elo_history st)
                 (T \<mapsto> history_or_initial timestamp st T @
                    [(timestamp, R + 32 * (actual_score_home - 1 / 2)),
                     (timestamp, R + 32 * ((1 - actual_score_home) - 1 / 2))])\<rparr>"
  using process_match_completed [OF assms(1-4), of timestamp] assms(5,6)
  by (simp add: Let_def update_elo_def)

theorem self_match_witness:
  "process_match week2 after_week1 foo_draws_foo =
     Inr \<lparr>elo_ratings = [Foo \<mapsto> 1516, Bar \<mapsto> 1484],
          elo_history = [Foo \<mapsto> [(week1, 1500), (week1, 1516), (week2, 1516), (week2, 1516)],
                         Bar \<mapsto> [(week1, 1500), (week1, 1484)]]\<rparr>"
  using self_match [of foo_draws_foo "PInt 0" "PInt 0" "1 / 2" after_week1 Foo week2]
  by (simp add: consistent_def foo_draws_foo_def clean_examples actual_score_PInt rating_or_initial_def
      history_or_initial_def after_week1_def fun_upd_twist)

text \<open>
  C7, as stated, fails on a match of a team against itself: one match appends two entries
  to the history of \<open>Foo\<close>.
\<close>

theorem match_frame_counterexample:
  "process_match week2 after_week1 foo_plays_foo =
     Inr \<lparr>elo_ratings = [Foo \<mapsto> 1500, Bar \<mapsto> 1484],
          elo_history = [Foo \<mapsto> [(week1, 1500), (week1, 1516), (week2, 1532), (week2, 1500)],
                         Bar \<mapsto> [(week1, 1500), (week1, 1484)]]\<rparr>"
  using process_match_completed [of foo_plays_foo "PInt 2" "PInt 1" 1 after_week1 week2]
  by (simp add: consistent_def foo_plays_foo_def clean_examples actual_score_PInt rating_or_initial_def
      history_or_initial_def after_week1_def fun_upd_twist update_elo_def)

text \<open>
  C7, amended. A completed match leaves the rating and the history of every team other
  than its two sides unchanged. When the two normalized names differ, it stores exactly
  the two ratings of the update rule and appends exactly one entry to the history of each
  side, the history of a team not seen before being the one just created with the 1500
  entry.
\<close>

theorem match_frame:
  assumes "home_score m = Some hs" and "away_score m = Some as"
    and "actual_score hs as = Inr a"
    and "consistent st"
  shows
    "let home = clean_team_name (home_team m);
         away = clean_team_name (away_team m);
         new_home_elo = fst (update_elo (rating_or_initial st home) (rating_or_initial st away) a 32);
         new_away_elo = snd (update_elo (rating_or_initial st home) (rating_or_initial st away) a 32)
     in \<exists>st'. process_match timestamp st m = Inr st' \<and>
          (\<forall>t. t \<noteq> home \<and> t \<noteq> away \<longrightarrow>
             elo_ratings st' t = elo_ratings st t \<and> elo_history st' t = elo_history st t) \<and>
          (home \<noteq> away \<longrightarrow>
             elo_ratings st' home = Some new_home_elo \<and>
             elo_ratings st' away = Some new_away_elo \<and>
             elo_history st' home =
               Some (history_or_initial timestamp st home @ [(timestamp, new_home_elo)]) \<and>
             elo_history st' away =
               Some (history_or_initial timestamp st away @ [(timestamp, new_away_elo)]))"
  using process_match_completed [OF assms, of timestamp]
  by (simp add: Let_def)

theorem match_frame_witness:
  "\<exists>st'. process_match week2 after_week1 newcomers_draw = Inr st' \<and>
     elo_ratings st' Foo = Some 1516 \<and>
     elo_history st' Foo = Some [(week1, 1500), (week1, 1516)] \<and>
     elo_ratings st' (ascii ''Baz'') = Some 1500 \<and>
     elo_ratings st' (ascii ''Qux'') = Some 1500 \<and>
     elo_history st' (ascii ''Baz'') = Some [(week2, 1500), (week2, 1500)] \<and>
     elo_history st' (ascii ''Qux'') = Some [(week2, 1500), (week2, 1500)]"
proof -
  have neq: "ascii ''Baz'' \<noteq> ascii ''Qux''" "Foo \<noteq> ascii ''Baz''" "Foo \<noteq> ascii ''Qux''"
    "Bar \<noteq> ascii ''Baz''" "Bar \<noteq> ascii ''Qux''"
    by (simp_all add: ascii_def Foo_def Bar_def)
  show ?thesis
    using match_frame [of newcomers_draw "PInt 1" "PInt 1" "1 / 2" after_week1 week2] neq
    by (auto simp add: consistent_def newcomers_draw_def clean_newcomers actual_score_PInt
        rating_or_initial_def history_or_initial_def after_week1_def update_elo_def Let_def)
qed

text \<open>
  C3. A match that lacks a score is skipped: the state of the loops, ratings and histories
  alike, is the same after it as before, so no team is created by it; and a dataset
  in which every match lacks a score yields an empty rating map and an empty history map.
\<close>

theorem incomplete_match_skipped:
  "(\<not> completed m \<longrightarrow> process_match timestamp st m = Inr st) \<and>
   ((\<forall>sd \<in> set data. \<forall>(week, ms) \<in> set (weeks sd). \<forall>m \<in> set ms. \<not> completed m) \<longrightarrow>
      calculate_elo_ratings data = Inr (Map.empty, Map.empty))"
  by (auto simp: completed_def process_match_incomplete calculate_elo_ratings_def
      process_seasons_incomplete empty_state_def)

theorem incomplete_match_skipped_witness:
  "process_match week2 after_week1 unplayed = Inr after_week1 \<and>
   calculate_elo_ratings unplayed_data = Inr (Map.empty, Map.empty)"
  using incomplete_match_skipped [of unplayed week2 after_week1 unplayed_data]
  by (simp add: completed_def unplayed_def unplayed_data_def)

text \<open>
  C5. After any number of matches of the traversal, and in the result of
  \<open>calculate_elo_ratings\<close>, the rating stored for a team is the rating of the last entry of
  that team's history.
\<close>

theorem rating_is_last_history_entry:
  "(traversal data = played @ rest \<and> process_all empty_state played = Inr st \<and>
      elo_ratings st t = Some r \<longrightarrow>
      (\<exists>h. elo_history st t = Some h \<and> h \<noteq> [] \<and> snd (last h) = r)) \<and>
   (calculate_elo_ratings data = Inr (ratings, history) \<and> ratings t = Some r \<longrightarrow>
      (\<exists>h. history t = Some h \<and> h \<noteq> [] \<and> snd (last h) = r))"
proof (intro conjI impI)
  assume "traversal data = played @ rest \<and> process_all empty_state played = Inr st \<and>
      elo_ratings st t = Some r"
  then have p: "process_all empty_state played = Inr st" and r: "elo_ratings st t = Some r"
    by simp_all
  from p have "current_is_last st"
    by (rule process_all_current_is_last) (simp_all add: current_is_last_empty)
  with r show "\<exists>h. elo_history st t = Some h \<and> h \<noteq> [] \<and> snd (last h) = r"
    by (simp add: current_is_last_def)
next
  assume "calculate_elo_ratings data = Inr (ratings, history) \<and> ratings t = Some r"
  then obtain st where p: "process_all empty_state (traversal data) = Inr st"
    and st: "ratings = elo_ratings st" "history = elo_history st" and r: "ratings t = Some r"
    by (auto simp: calculate_elo_ratings_def and_then_Inr_iff process_seasons_all)
  from p have "current_is_last st"
    by (rule process_all_current_is_last) (simp_all add: current_is_last_empty)
  with r st show "\<exists>h. history t = Some h \<and> h \<noteq> [] \<and> snd (last h) = r"
    by (simp add: current_is_last_def)
qed


theorem rating_is_last_history_entry_witness:
  "\<exists>h. elo_history after_week1 Foo = Some h \<and> h \<noteq> [] \<and> snd (last h) = 1516"
  using rating_is_last_history_entry [of one_match_data "[(week1, foo_beats_bar)]" "[]"
      after_week1 Foo 1516 "elo_ratings after_week1" "elo_history after_week1"]
    one_match_traversal one_match_result after_week1_reached
  by (simp add: after_week1_def)

text \<open>
  C2. In the result of \<open>calculate_elo_ratings\<close>, a team has a history (and a rating)
  exactly when some completed match of the traversal has it as its normalized home or
  away name. Its history then starts with the entry 1500 at the timestamp of the first
  such match; no state existed for the team before that match; and the second entry, at the
  same timestamp, is the update of that match applied to the rating 1500: the
  initialisation happens before the update.
\<close>

theorem lazy_initialisation:
  assumes "calculate_elo_ratings data = Inr (ratings, history)"
  shows "(history t = None \<longleftrightarrow> (\<forall>(timestamp, m) \<in> set (traversal data). \<not> involves t m)) \<and>
    (ratings t = None \<longleftrightarrow> history t = None) \<and>
    (\<forall>h. history t = Some h \<longrightarrow>
       (\<exists>played timestamp m rest st.
          traversal data = played @ (timestamp, m) # rest \<and>
          (\<forall>(timestamp', m') \<in> set played. \<not> involves t m') \<and> involves t m \<and>
          process_all empty_state played = Inr st \<and> elo_ratings st t = None \<and>
          baseline_then_update t timestamp m st h))"
proof -
  from assms obtain st' where run: "process_all empty_state (traversal data) = Inr st'"
    and st': "ratings = elo_ratings st'" "history = elo_history st'"
    by (auto simp: calculate_elo_ratings_def and_then_Inr_iff process_seasons_all)
  have never: "history t = None" if "\<forall>(timestamp, m) \<in> set (traversal data). \<not> involves t m"
    using process_all_untouched [OF run consistent_empty that] by (simp add: st' empty_state_def)
  have first: "\<exists>played timestamp m rest st h.
     traversal data = played @ (timestamp, m) # rest \<and>
     (\<forall>(timestamp', m') \<in> set played. \<not> involves t m') \<and> involves t m \<and>
     process_all empty_state played = Inr st \<and> elo_ratings st t = None \<and>
     history t = Some h \<and> baseline_then_update t timestamp m st h"
    if "\<exists>(timestamp, m) \<in> set (traversal data). involves t m"
    using first_rated_match [OF run that] by (simp add: st')
  have 1: "history t = None \<longleftrightarrow> (\<forall>(timestamp, m) \<in> set (traversal data). \<not> involves t m)"
    using never first by fastforce
  from run have "consistent st'" by (rule process_all_consistent) simp
  then have 2: "ratings t = None \<longleftrightarrow> history t = None"
    by (simp add: st' consistent_None)
  have 3: "\<forall>h. history t = Some h \<longrightarrow>
       (\<exists>played timestamp m rest st.
          traversal data = played @ (timestamp, m) # rest \<and>
          (\<forall>(timestamp', m') \<in> set played. \<not> involves t m') \<and> involves t m \<and>
          process_all empty_state played = Inr st \<and> elo_ratings st t = None \<and>
          baseline_then_update t timestamp m st h)"
  proof (intro allI impI)
    fix h assume h: "history t = Some h"
    with never have "\<exists>(timestamp, m) \<in> set (traversal data). involves t m" by fastforce
    from first [OF this] h show "\<exists>played timestamp m rest st.
          traversal data = played @ (timestamp, m) # rest \<and>
          (\<forall>(timestamp', m') \<in> set played. \<not> involves t m') \<and> involves t m \<and>
          process_all empty_state played = Inr st \<and> elo_ratings st t = None \<and>
          baseline_then_update t timestamp m st h"
      by fastforce
  qed
  from 1 2 3 show ?thesis by blast
qed

theorem lazy_initialisation_witness:
  "\<exists>a more. elo_history after_week1 Bar =
     Some ((week1, 1500) # (week1, 1500 + 32 * ((1 - a) - (1 - expected_score 1500 1500))) # more)"
  using lazy_initialisation [OF one_match_result, of Bar]
  by (auto simp: one_match_traversal baseline_then_update_def append_eq_Cons_conv
      foo_beats_bar_def clean_examples after_week1_def rating_or_initial_def empty_state_def)


text \<open>
  C9, as stated, fails on a negative score: no error is raised, and the match is rated.
\<close>

theorem no_score_validation_counterexample:
  "process_match week1 empty_state negative_score_match =
     Inr \<lparr>elo_ratings = [Foo \<mapsto> 1484, Bar \<mapsto> 1516],
          elo_history = [Foo \<mapsto> [(week1, 1500), (week1, 1484)],
                         Bar \<mapsto> [(week1, 1500), (week1, 1516)]]\<rparr>"
  using process_match_completed [of negative_score_match "PInt (- 3)" "PInt 0" 0 empty_state week1]
  by (simp add: consistent_def negative_score_match_def clean_examples actual_score_PInt
      rating_or_initial_def history_or_initial_def empty_state_def update_elo_def)

text \<open>
  C9, amended. The engine does not validate a present score. A match whose two scores are
  integers, negative or not, raises no error and is rated by the comparison of the two
  scores alone; a match with a \<open>null\<close> score raises TypeError, at the comparison.
\<close>

theorem no_score_validation:
  "(home_score m = Some (PInt hs) \<and> away_score m = Some (PInt as) \<and> consistent st \<longrightarrow>
      (\<exists>st'. process_match timestamp st m = Inr st' \<and>
         elo_ratings st' =
           (elo_ratings st)
             (clean_team_name (home_team m) \<mapsto>
                fst (update_elo (rating_or_initial st (clean_team_name (home_team m)))
                       (rating_or_initial st (clean_team_name (away_team m)))
                       (if hs > as then 1 else if hs = as then 1 / 2 else 0) 32),
              clean_team_name (away_team m) \<mapsto>
                snd (update_elo (rating_or_initial st (clean_team_name (home_team m)))
                       (rating_or_initial st (clean_team_name (away_team m)))
                       (if hs > as then 1 else if hs = as then 1 / 2 else 0) 32)))) \<and>
   (home_score m = Some hv \<and> away_score m = Some av \<and> (hv = PNone \<or> av = PNone) \<longrightarrow>
      process_match timestamp st m = Inl TypeError)"
proof (intro conjI impI)
  assume "home_score m = Some (PInt hs) \<and> away_score m = Some (PInt as) \<and> consistent st"
  then have s: "home_score m = Some (PInt hs)" "away_score m = Some (PInt as)" and c: "consistent st"
    by simp_all
  from process_match_completed [OF s actual_score_PInt c, of timestamp]
  show "\<exists>st'. process_match timestamp st m = Inr st' \<and>
         elo_ratings st' =
           (elo_ratings st)
             (clean_team_name (home_team m) \<mapsto>
                fst (update_elo (rating_or_initial st (clean_team_name (home_team m)))
                       (rating_or_initial st (clean_team_name (away_team m)))
                       (if hs > as then 1 else if hs = as then 1 / 2 else 0) 32),
              clean_team_name (away_team m) \<mapsto>
                snd (update_elo (rating_or_initial st (clean_team_name (home_team m)))
                       (rating_or_initial st (clean_team_name (away_team m)))
                       (if hs > as then 1 else if hs = as then 1 / 2 else 0) 32))"
    by (simp add: Let_def)
next
  assume "home_score m = Some hv \<and> away_score m = Some av \<and> (hv = PNone \<or> av = PNone)"
  then have s: "home_score m = Some hv" "away_score m = Some av" and n: "hv = PNone \<or> av = PNone"
    by simp_all
  from n have "actual_score hv av = Inl TypeError"
    by (auto simp: actual_score_def)
  with s show "process_match timestamp st m = Inl TypeError"
    by (rule process_match_error)
qed

theorem no_score_validation_witness:
  "(\<exists>st'. process_match week1 empty_state negative_draw = Inr st' \<and>
      elo_ratings st' = [Bar \<mapsto> 1500, Foo \<mapsto> 1500]) \<and>
   process_match week1 empty_state null_score_match = Inl TypeError"
  using no_score_validation [of negative_draw "- 1" "- 1" empty_state week1 "PInt (- 1)" "PInt (- 1)"]
    no_score_validation [of null_score_match 7 7 empty_state week1 PNone "PInt 0"]
  by (simp add: negative_draw_def null_score_match_def clean_examples rating_or_initial_def
      empty_state_def consistent_def update_elo_def)

text \<open>
  C6. \<open>clean_team_name\<close> is a total function that removes the listed prefixes, in list
  order, then the listed suffixes, in list order, each by \<open>replace\<close> with the empty
  string, and then strips whitespace at both ends. \<open>replace\<close> deletes an occurrence wherever
  it stands (the first one, and then those behind it) and leaves a string without any
  occurrence as it is. So a name that contains none of the listed substrings is returned
  stripped and otherwise unchanged; the match is exact, a name in another case is not
  touched.
\<close>

theorem clean_team_name_spec:
  "clean_team_name x = strip (foldl (\<lambda>cleaned old. replace old [] cleaned) x (prefixes @ suffixes)) \<and>
   ((\<forall>old \<in> set (prefixes @ suffixes). \<not> contains old x) \<longrightarrow> clean_team_name x = strip x) \<and>
   (old \<noteq> [] \<and> \<not> contains old (a @ butlast old) \<longrightarrow>
      replace old [] (a @ old @ b) = a @ replace old [] b) \<and>
   (\<not> contains old s \<longrightarrow> replace old [] s = s)"
proof (intro conjI impI)
  show "clean_team_name x = strip (foldl (\<lambda>cleaned old. replace old [] cleaned) x (prefixes @ suffixes))"
    by (simp add: clean_team_name_def remove_all_def)
next
  assume "\<forall>old \<in> set (prefixes @ suffixes). \<not> contains old x"
  then have "remove_all prefixes x = x" "remove_all suffixes x = x"
    by (simp_all add: remove_all_absent)
  then show "clean_team_name x = strip x" by (simp add: clean_team_name_def)
next
  assume "old \<noteq> [] \<and> \<not> contains old (a @ butlast old)"
  then show "replace old [] (a @ old @ b) = a @ replace old [] b"
    by (simp add: replace_first_occurrence)
next
  assume "\<not> contains old s"
  then show "replace old [] s = s" by (rule replace_absent)
qed

theorem clean_team_name_spec_witness:
  "clean_team_name lower_case_name = ascii ''miracle Foo tsk'' \<and>
   replace (ascii '' SK'') [] (ascii ''A SK SK B'') = ascii ''A B'' \<and>
   replace (ascii '' SK'') [] (ascii ''A sk'') = ascii ''A sk''"
proof -
  have 1: "replace (ascii '' SK'') [] (ascii '' SK B'') = ascii '' B''"
    by (simp add: ascii_def)
  have 2: "ascii ''A SK SK B'' = ascii ''A'' @ ascii '' SK'' @ ascii '' SK B''"
    by (simp add: ascii_def)
  have 3: "strip lower_case_name = ascii ''miracle Foo tsk''"
    by (simp add: strip_def lower_case_name_def ascii_def isspace_def)
  have 4: "ascii '' SK'' \<noteq> []" "\<not> contains (ascii '' SK'') (ascii ''A'' @ butlast (ascii '' SK''))"
    "\<not> contains (ascii '' SK'') (ascii ''A sk'')"
    by (simp_all add: ascii_def)
  note spec = clean_team_name_spec [of lower_case_name "ascii '' SK''" "ascii ''A''"
      "ascii '' SK B''" "ascii ''A sk''"]
  from spec lower_case_absent have a: "clean_team_name lower_case_name = strip lower_case_name"
    by blast
  from spec 4 have b: "replace (ascii '' SK'') [] (ascii ''A'' @ ascii '' SK'' @ ascii '' SK B'') =
      ascii ''A'' @ replace (ascii '' SK'') [] (ascii '' SK B'')"
    by blast
  from spec 4 have c: "replace (ascii '' SK'') [] (ascii ''A sk'') = ascii ''A sk''"
    by blast
  have "ascii ''A'' @ ascii '' B'' = ascii ''A B''" by (simp add: ascii_def)
  with a b c 1 2 3 show ?thesis by simp
qed

text \<open>
  C8, as stated, fails: each pattern is removed in one pass, and removing an occurrence can
  join its two neighbours into a new one, which only a second normalization removes.
\<close>

theorem normalize_idempotent_counterexample:
  "clean_team_name (clean_team_name (ascii ''MirMiracle acle X'')) \<noteq>
   clean_team_name (ascii ''MirMiracle acle X'')"
  by (simp add: clean_team_name_def remove_all_def prefixes_def suffixes_def ascii_def
      strip_def isspace_def)

text \<open>
  C8, amended. Normalizing a normalized name changes nothing whenever the normalized name
  contains none of the listed prefixes and suffixes.
\<close>

theorem normalize_idempotent_when_clean:
  assumes "\<forall>old \<in> set (prefixes @ suffixes). \<not> contains old (clean_team_name x)"
  shows "clean_team_name (clean_team_name x) = clean_team_name x"
proof -
  from assms have "remove_all prefixes (clean_team_name x) = clean_team_name x"
    "remove_all suffixes (clean_team_name x) = clean_team_name x"
    by (simp_all add: remove_all_absent)
  then have "clean_team_name (clean_team_name x) = strip (clean_team_name x)"
    by (simp add: clean_team_name_def)
  also have "\<dots> = clean_team_name x"
    by (simp add: clean_team_name_def strip_idem)
  finally show ?thesis .
qed

theorem normalize_idempotent_when_clean_witness:
  "clean_team_name (clean_team_name sponsored_foo) = Foo"
  using normalize_idempotent_when_clean [of sponsored_foo] Foo_absent
  by (simp add: clean_examples)


end
